theory Spec2Isabelle
  imports Complex_Main "HOL-Library.Sublist" "HOL-Library.Monad_Syntax"
begin

section \<open>Python strings\<close>

text \<open>
  A Python \<^verbatim>\<open>str\<close> is a sequence of Unicode code points, and \<^verbatim>\<open>len\<close> counts code
  points. A string is therefore a list of code points; \<open>str\<close> turns an ASCII literal
  into one.
\<close>

type_synonym pystr = "nat list"

definition str :: "string \<Rightarrow> pystr" where
  "str s = map of_char s"

text \<open>
  The characters that \<^verbatim>\<open>\s\<close> of a \<^verbatim>\<open>str\<close> pattern matches and that \<^verbatim>\<open>str.strip()\<close>
  removes: both use CPython's \<^verbatim>\<open>Py_UNICODE_ISSPACE\<close>.
\<close>

definition is_space :: "nat \<Rightarrow> bool" where
  "is_space c \<longleftrightarrow>
     (9 \<le> c \<and> c \<le> 13) \<or> (28 \<le> c \<and> c \<le> 32) \<or> c = 133 \<or> c = 160 \<or> c = 5760 \<or>
     (8192 \<le> c \<and> c \<le> 8202) \<or> c = 8232 \<or> c = 8233 \<or> c = 8239 \<or> c = 8287 \<or>
     c = 12288"

definition strip :: "pystr \<Rightarrow> pystr" where
  "strip s = rev (dropWhile is_space (rev (dropWhile is_space s)))"

section \<open>The action protocol codec (gemini\_service.py)\<close>

subsection \<open>A backtracking matcher for the pieces of the two patterns\<close>

text \<open>
  Python's \<^verbatim>\<open>re\<close> is a backtracking matcher. Each piece of a pattern takes the
  continuation \<open>k\<close> that matches the rest of the pattern and the text still to be read;
  \<open>None\<close> is failure, which makes the piece before it try its next alternative.
\<close>

definition lit :: "pystr \<Rightarrow> (pystr \<Rightarrow> 'r option) \<Rightarrow> pystr \<Rightarrow> 'r option" where
  "lit p k s = (if prefix p s then k (drop (length p) s) else None)"

definition alt ::
  "((pystr \<Rightarrow> 'r option) \<Rightarrow> pystr \<Rightarrow> 'r option) \<Rightarrow>
   ((pystr \<Rightarrow> 'r option) \<Rightarrow> pystr \<Rightarrow> 'r option) \<Rightarrow>
   (pystr \<Rightarrow> 'r option) \<Rightarrow> pystr \<Rightarrow> 'r option" where
  "alt a b k s = (case a k s of Some r \<Rightarrow> Some r | None \<Rightarrow> b k s)"

text \<open>\<^verbatim>\<open>\s*\<close>, greedy: one more space first, and the rest of the pattern here if that fails.\<close>

fun star_space :: "(pystr \<Rightarrow> 'r option) \<Rightarrow> pystr \<Rightarrow> 'r option" where
  "star_space k [] = k []"
| "star_space k (c # cs) =
     (if is_space c
      then (case star_space k cs of Some r \<Rightarrow> Some r | None \<Rightarrow> k (c # cs))
      else k (c # cs))"

text \<open>\<^verbatim>\<open>[\s\S]*?\<close>, lazy: the rest of the pattern here first, one more character if that fails.\<close>

fun lazy_any :: "(pystr \<Rightarrow> 'r option) \<Rightarrow> pystr \<Rightarrow> 'r option" where
  "lazy_any k [] = k []"
| "lazy_any k (c # cs) =
     (case k (c # cs) of Some r \<Rightarrow> Some r | None \<Rightarrow> lazy_any k cs)"

definition fence :: pystr where
  "fence = str ''```''"

definition tag :: "(pystr \<Rightarrow> 'r option) \<Rightarrow> pystr \<Rightarrow> 'r option" where
  "tag = alt (lit (str ''action'')) (lit (str ''json''))"

subsection \<open>extract\_action\<close>

text \<open>
  The pattern is \<^verbatim>\<open>```(?:action|json)\s*(\{[\s\S]*?\})\s*```\<close>. \<open>action_group\<close> is the
  pattern from its group on, read at \<open>s1\<close>, where the group opens. \<open>closes\<close> is the
  pattern from \<^verbatim>\<open>\}\<close> on; it returns the text \<open>s2\<close> where the group closes, and group 1 is
  what lies between \<open>s1\<close> and \<open>s2\<close>.
\<close>

definition closes :: "pystr \<Rightarrow> pystr option" where
  "closes = lit (str ''}'') (\<lambda>s2. star_space (lit fence (\<lambda>_. Some s2)) s2)"

definition action_group :: "pystr \<Rightarrow> pystr option" where
  "action_group s1 =
     map_option (\<lambda>s2. take (length s1 - length s2) s1)
       (lit (str ''{'') (lazy_any closes) s1)"

definition match_action :: "pystr \<Rightarrow> pystr option" where
  "match_action s = lit fence (tag (star_space action_group)) s"

text \<open>\<^verbatim>\<open>re.search\<close>: the match at the leftmost position that has one; the result is group 1.\<close>

fun search_action :: "pystr \<Rightarrow> pystr option" where
  "search_action [] = match_action []"
| "search_action (c # cs) =
     (case match_action (c # cs) of Some g \<Rightarrow> Some g | None \<Rightarrow> search_action cs)"

text \<open>
  \<^verbatim>\<open>json.loads\<close> belongs to Python's library: it is the parameter \<open>loads\<close>, which gives
  \<open>None\<close> where \<^verbatim>\<open>json.loads\<close> raises. \<open>extract_action\<close> catches every exception and
  returns \<^verbatim>\<open>None\<close> for it, so \<open>None\<close> is all the caller sees of a failure.
\<close>

definition extract_action :: "(pystr \<Rightarrow> 'j option) \<Rightarrow> pystr \<Rightarrow> 'j option" where
  "extract_action loads response =
     (case search_action response of
        Some g \<Rightarrow> loads (strip g)
      | None \<Rightarrow> None)"

subsection \<open>get\_clean\_response\<close>

text \<open>
  The pattern is \<^verbatim>\<open>```(?:action|json)[\s\S]*?```\<close>; \<open>match_block s\<close> is the text after the
  match when the pattern matches at the start of \<open>s\<close>.
\<close>

definition match_block :: "pystr \<Rightarrow> pystr option" where
  "match_block s = lit fence (tag (lazy_any (lit fence Some))) s"

text \<open>
  \<^verbatim>\<open>re.sub(pattern, "", response)\<close>: from left to right, a match is dropped and the scan
  goes on after it; a character where nothing matches is kept.
\<close>

function sub_blocks :: "pystr \<Rightarrow> pystr" where
  "sub_blocks s =
     (case match_block s of
        Some rest \<Rightarrow> sub_blocks rest
      | None \<Rightarrow> (case s of [] \<Rightarrow> [] | c # cs \<Rightarrow> c # sub_blocks cs))"
  by pat_completeness auto
termination
proof (relation "measure length")
  show "wf (measure (length :: pystr \<Rightarrow> nat))"
    by simp
next
  fix s rest :: pystr
  assume m: "match_block s = Some rest"
  have lazy: "length r < length t" if "lazy_any (lit fence Some) t = Some r" for t r :: pystr
    using that
    by (induction t) (auto simp: lit_def fence_def str_def split: if_splits option.splits)
  have "length u < length s"
    if "tag (lazy_any (lit fence Some)) (drop (length fence) s) = Some u" for u
    using that lazy [of _ u]
    by (auto simp: tag_def alt_def lit_def split: option.splits if_splits) fastforce+
  with m show "(rest, s) \<in> measure length"
    by (auto simp: match_block_def lit_def split: if_splits)
next
  fix s cs :: pystr and c :: nat
  assume "s = c # cs"
  then show "(cs, s) \<in> measure length"
    by simp
qed

declare sub_blocks.simps [simp del]

definition acknowledgment :: pystr where
  \<open>acknowledgment = str ''I'll help you with that. How can I assist?''\<close>

definition get_clean_response :: "pystr \<Rightarrow> pystr" where
  "get_clean_response response =
     (let clean = strip (sub_blocks response)
      in if clean = [] \<or> length clean < 5 then acknowledgment else clean)"

subsection \<open>Responses as prose and fenced blocks\<close>

text \<open>
  The vocabulary of the statements below. \<open>after_tag s\<close> is the text after an opening
  fence tagged \<^verbatim>\<open>action\<close> or \<^verbatim>\<open>json\<close> at the start of \<open>s\<close>; \<open>opens_block s\<close> says that
  \<open>s\<close> starts with such a fence, optional whitespace and an opening brace;
  \<open>opens_nowhere pre s\<close> says that no position of \<open>pre\<close>, read on into \<open>s\<close>, does.
\<close>

definition after_tag :: "pystr \<Rightarrow> pystr option" where
  "after_tag s =
     (if prefix (fence @ str ''action'') s then Some (drop 9 s)
      else if prefix (fence @ str ''json'') s then Some (drop 7 s)
      else None)"

definition opens_block :: "pystr \<Rightarrow> bool" where
  "opens_block s \<longleftrightarrow>
     (case after_tag s of
        Some t \<Rightarrow> prefix (str ''{'') (dropWhile is_space t)
      | None \<Rightarrow> False)"

fun opens_nowhere :: "pystr \<Rightarrow> pystr \<Rightarrow> bool" where
  "opens_nowhere [] s = True"
| "opens_nowhere (c # cs) s \<longleftrightarrow> \<not> opens_block (c # cs @ s) \<and> opens_nowhere cs s"





section \<open>JSON values\<close>

text \<open>
  What \<^verbatim>\<open>json.loads\<close> returns and \<^verbatim>\<open>json.dumps\<close> accepts: sessions, commands and their
  fields are such values. A Python \<^verbatim>\<open>float\<close> is only stored, tested against zero and, in
  the cost formula, combined with \<^verbatim>\<open>+\<close>, \<^verbatim>\<open>*\<close> and \<^verbatim>\<open>/\<close>; it is modelled by a real,
  so rounding, the infinities and NaN are not part of the model. The keys of a dict are
  kept in a list of pairs, each key once.
\<close>

datatype jval =
    JNull
  | JBool bool
  | JInt int
  | JFloat real
  | JStr pystr
  | JList "jval list"
  | JDict "(pystr \<times> jval) list"






section \<open>The session store (redis\_service.py)\<close>

text \<open>
  A session is a dict from strings to JSON values. Redis holds, under the session's key,
  its JSON text and a time to live in seconds; \<^verbatim>\<open>json.loads\<close> of \<^verbatim>\<open>json.dumps\<close> is the
  identity on JSON values, so the store holds the session itself. The store is taken to
  answer: a Redis failure and the passing of time (expiry) are not part of the model.
  The readings of the clock, \<^verbatim>\<open>datetime.utcnow().isoformat()\<close>, are parameters.
\<close>

type_synonym session = "pystr \<rightharpoonup> jval"

record redis_service =
  session_timeout :: nat
  redis :: "pystr \<rightharpoonup> session \<times> nat"

datatype py_error = AttributeError | ValueError

definition get_session_key :: "pystr \<Rightarrow> pystr" where
  "get_session_key phone_number = str ''session:'' @ phone_number"

definition get_session :: "redis_service \<Rightarrow> pystr \<Rightarrow> session option \<times> redis_service" where
  "get_session self phone_number =
     (let key = get_session_key phone_number in
      case redis self key of
        Some (session, ttl) \<Rightarrow>
          (Some session, self\<lparr>redis := (redis self)(key \<mapsto> (session, session_timeout self))\<rparr>)
      | None \<Rightarrow> (None, self))"

definition set_session :: "redis_service \<Rightarrow> pystr \<Rightarrow> session \<Rightarrow> pystr \<Rightarrow> redis_service" where
  "set_session self phone_number session_data now =
     (let key = get_session_key phone_number;
          session_data = session_data(str ''last_activity'' \<mapsto> JStr now)
      in self\<lparr>redis := (redis self)(key \<mapsto> (session_data, session_timeout self))\<rparr>)"

definition update_session :: "redis_service \<Rightarrow> pystr \<Rightarrow> session \<Rightarrow> pystr \<Rightarrow> redis_service" where
  "update_session self phone_number updates now =
     (let (found, self) = get_session self phone_number;
          session = (case found of None \<Rightarrow> Map.empty | Some s \<Rightarrow> s)
      in set_session self phone_number (session ++ updates) now)"

definition conversation_entry :: "pystr \<Rightarrow> pystr \<Rightarrow> pystr \<Rightarrow> jval" where
  "conversation_entry role message timestamp =
     JDict [(str ''role'', JStr role), (str ''message'', JStr message),
            (str ''timestamp'', JStr timestamp)]"

text \<open>
  \<^verbatim>\<open>get_session(...) or {}\<close> is the session found, or the empty dict. \<^verbatim>\<open>append\<close> exists
  on a list only: any other value under \<^verbatim>\<open>conversation\<close> raises \<^verbatim>\<open>AttributeError\<close>,
  which add\_to\_conversation logs and raises again, after the read has refreshed the
  time to live. \<open>timestamp\<close> is the clock's reading for the entry, \<open>now\<close> the one for the
  write.
\<close>

definition add_to_conversation ::
  "redis_service \<Rightarrow> pystr \<Rightarrow> pystr \<Rightarrow> pystr \<Rightarrow> pystr \<Rightarrow> pystr \<Rightarrow> py_error option \<times> redis_service"
  where
  "add_to_conversation self phone_number role message timestamp now =
     (let (found, self) = get_session self phone_number;
          session = (case found of None \<Rightarrow> Map.empty | Some s \<Rightarrow> s);
          session = (if str ''conversation'' \<in> dom session then session
                     else session(str ''conversation'' \<mapsto> JList []))
      in case session (str ''conversation'') of
           Some (JList conversation) \<Rightarrow>
             (let conversation = conversation @ [conversation_entry role message timestamp];
                  conversation =
                    (if length conversation > 20
                     then drop (length conversation - 20) conversation
                     else conversation)
              in (None,
                  set_session self phone_number
                    (session(str ''conversation'' \<mapsto> JList conversation)) now))
         | _ \<Rightarrow> (Some AttributeError, self))"

definition get_conversation_history :: "redis_service \<Rightarrow> pystr \<Rightarrow> jval \<times> redis_service" where
  "get_conversation_history self phone_number =
     (let (found, self) = get_session self phone_number in
      case found of
        Some session \<Rightarrow>
          (case session (str ''conversation'') of
             Some conversation \<Rightarrow> (conversation, self)
           | None \<Rightarrow> (JList [], self))
      | None \<Rightarrow> (JList [], self))"

text \<open>
  For the statements: the session stored for a phone number (the empty dict when there
  is none), and a run of appends, which stops at the first one that raises.
\<close>

definition session_of :: "redis_service \<Rightarrow> pystr \<Rightarrow> session" where
  "session_of self phone_number =
     (case redis self (get_session_key phone_number) of
        Some (session, ttl) \<Rightarrow> session
      | None \<Rightarrow> Map.empty)"

fun add_all ::
  "redis_service \<Rightarrow> pystr \<Rightarrow> (pystr \<times> pystr \<times> pystr \<times> pystr) list \<Rightarrow>
   py_error option \<times> redis_service" where
  "add_all self phone_number [] = (None, self)"
| "add_all self phone_number ((role, message, timestamp, now) # rest) =
     (case add_to_conversation self phone_number role message timestamp now of
        (None, self) \<Rightarrow> add_all self phone_number rest
      | (Some e, self) \<Rightarrow> (Some e, self))"

definition transcript :: "redis_service \<Rightarrow> pystr \<Rightarrow> jval list option" where
  "transcript self phone_number =
     (case session_of self phone_number (str ''conversation'') of
        None \<Rightarrow> Some []
      | Some (JList conversation) \<Rightarrow> Some conversation
      | Some _ \<Rightarrow> None)"

text \<open>The entry that an append of a run writes, and the last 20 elements of a list.\<close>

definition entry_of :: "pystr \<times> pystr \<times> pystr \<times> pystr \<Rightarrow> jval" where
  "entry_of e =
     (case e of (role, message, timestamp, now) \<Rightarrow> conversation_entry role message timestamp)"

definition last20 :: "'a list \<Rightarrow> 'a list" where
  "last20 xs = drop (length xs - 20) xs"

section \<open>Orders (database\_models.py, order\_service.py)\<close>

datatype OrderType = DINE_IN | TAKEAWAY | DELIVERY

datatype OrderStatus = PENDING | PREPARING | READY | COMPLETED | CANCELLED



text \<open>
  A \<^verbatim>\<open>datetime\<close> (naive, UTC) is the number of microseconds since the epoch, and a
  \<^verbatim>\<open>timedelta\<close> a number of microseconds.
\<close>

type_synonym datetime = int

definition timedelta_minutes :: "int \<Rightarrow> int" where
  "timedelta_minutes n = n * 60000000"


text \<open>
  The columns of an order. The table declares no validation, so the delivery fields and
  the price hold whatever JSON value the caller passes; \<open>items\<close> is the value whose JSON
  text is stored.
\<close>

record Order =
  order_id :: nat
  customer_id :: nat
  order_type :: OrderType
  status :: OrderStatus
  items :: jval
  total_price :: jval
  delivery_address :: jval
  delivery_latitude :: jval
  delivery_longitude :: jval
  estimated_completion_time :: "datetime option"
  completed_at :: "datetime option"
  feedback_requested :: bool
  feedback :: "pystr option"
  created_at :: datetime
  updated_at :: datetime

record settings =
  SESSION_TIMEOUT_MINUTES :: int
  FEEDBACK_DELAY_MINUTES :: int

definition default_settings :: settings where
  "default_settings = \<lparr>SESSION_TIMEOUT_MINUTES = 60, FEEDBACK_DELAY_MINUTES = 30\<rparr>"




text \<open>
  \<open>utcnow\<close> is the clock's reading in should\_request\_feedback. A \<^verbatim>\<open>datetime\<close> is always
  true, so \<^verbatim>\<open>not order.completed_at\<close> asks for \<^verbatim>\<open>None\<close>; the feedback text is true when
  it is a string that is not empty.
\<close>

definition should_request_feedback :: "settings \<Rightarrow> datetime \<Rightarrow> Order \<Rightarrow> bool" where
  "should_request_feedback cfg utcnow order =
     (if feedback_requested order \<or> (case feedback order of None \<Rightarrow> False | Some s \<Rightarrow> s \<noteq> [])
      then False
      else case completed_at order of
             None \<Rightarrow> False
           | Some completed \<Rightarrow>
               (let time_since_completion = utcnow - completed;
                    threshold = timedelta_minutes (FEEDBACK_DELAY_MINUTES cfg)
                in time_since_completion \<ge> threshold))"

section \<open>The create\_order branch of handle\_action (webhook.py)\<close>


section \<open>Usage accounting (cost\_tracking\_service.py)\<close>

text \<open>
  The Redis hashes that hold the counters, and the time to live of each key, in
  seconds. A hash field holds a number; \<^verbatim>\<open>HINCRBY\<close> refuses a field whose value is not an
  integer (its 64-bit range is not part of the model), and \<^verbatim>\<open>EXPIRE\<close> acts on a key that
  exists. \<open>connected\<close> says that \<^verbatim>\<open>self.redis\<close> is set. \<open>CostTrackingService h e\<close> is the
  service once connected, with the prices that its constructor sets, over the hashes
  \<open>h\<close> and the expiries \<open>e\<close>.
\<close>

record cost_tracking_service =
  connected :: bool
  INPUT_COST_PER_1M :: real
  OUTPUT_COST_PER_1M :: real
  USD_TO_PKR :: real
  hashes :: "pystr \<rightharpoonup> (pystr \<rightharpoonup> real)"
  expires :: "pystr \<rightharpoonup> nat"


datatype redis_op =
    HIncrBy pystr pystr int
  | HIncrByFloat pystr pystr real
  | Expire pystr nat

definition hash_at :: "cost_tracking_service \<Rightarrow> pystr \<Rightarrow> (pystr \<rightharpoonup> real)" where
  "hash_at self key = (case hashes self key of None \<Rightarrow> Map.empty | Some h \<Rightarrow> h)"

fun run_op :: "redis_op \<Rightarrow> cost_tracking_service \<Rightarrow> cost_tracking_service option" where
  "run_op (HIncrBy key field n) self =
     (case hash_at self key field of
        None \<Rightarrow> Some (self\<lparr>hashes := (hashes self)(key \<mapsto> (hash_at self key)(field \<mapsto> of_int n))\<rparr>)
      | Some x \<Rightarrow>
          if x = of_int \<lfloor>x\<rfloor>
          then Some (self\<lparr>hashes := (hashes self)(key \<mapsto> (hash_at self key)(field \<mapsto> x + of_int n))\<rparr>)
          else None)"
| "run_op (HIncrByFloat key field y) self =
     (case hash_at self key field of
        None \<Rightarrow> Some (self\<lparr>hashes := (hashes self)(key \<mapsto> (hash_at self key)(field \<mapsto> y))\<rparr>)
      | Some x \<Rightarrow>
          Some (self\<lparr>hashes := (hashes self)(key \<mapsto> (hash_at self key)(field \<mapsto> x + y))\<rparr>))"
| "run_op (Expire key seconds) self =
     (if key \<in> dom (hashes self) then Some (self\<lparr>expires := (expires self)(key \<mapsto> seconds)\<rparr>)
      else Some self)"




text \<open>For the statements: a counter of a window, \<open>0\<close> while the field is not there.\<close>

definition counter :: "cost_tracking_service \<Rightarrow> pystr \<Rightarrow> pystr \<Rightarrow> real" where
  "counter self key field = (case hash_at self key field of None \<Rightarrow> 0 | Some x \<Rightarrow> x)"

text \<open>A write of one field of one hash.\<close>

definition put :: "cost_tracking_service \<Rightarrow> pystr \<Rightarrow> pystr \<Rightarrow> real \<Rightarrow> cost_tracking_service" where
  "put self key field v =
     self\<lparr>hashes := (hashes self)(key \<mapsto> (hash_at self key)(field \<mapsto> v))\<rparr>"

section \<open>Lemmas on the matcher\<close>

lemma fence_eq: "fence = [96, 96, 96]"
  by (simp add: fence_def str_def)


lemma str_action: "str ''action'' = [97, 99, 116, 105, 111, 110]"
  by (simp add: str_def)

lemma str_json: "str ''json'' = [106, 115, 111, 110]"
  by (simp add: str_def)

lemma str_lbrace: "str ''{'' = [123]"
  by (simp add: str_def)

lemma str_rbrace: "str ''}'' = [125]"
  by (simp add: str_def)

lemma not_space_marks [simp]: "\<not> is_space 96" "\<not> is_space 123" "\<not> is_space 125"
  by (simp_all add: is_space_def)

lemma prefix_append_drop:
  "prefix (a @ b) s \<longleftrightarrow> prefix a s \<and> prefix b (drop (length a) s)"
proof (induction a arbitrary: s)
  case Nil
  then show ?case by simp
next
  case (Cons x a)
  then show ?case by (cases s) auto
qed

lemma prefix_nth: "prefix a b \<Longrightarrow> i < length a \<Longrightarrow> b ! i = a ! i"
  by (auto simp: prefix_def nth_append)

lemma not_both_tags: "prefix (str ''action'') u \<Longrightarrow> \<not> prefix (str ''json'') u"
  by (cases u) (auto simp: str_action str_json)

text \<open>The opening fence and its tag, read without the matcher.\<close>

lemma tag_after_tag:
  "lit fence (tag k) s = (case after_tag s of Some t \<Rightarrow> k t | None \<Rightarrow> None)"
proof (cases "prefix fence s")
  case False
  then show ?thesis
    by (simp add: lit_def after_tag_def prefix_append_drop)
next
  case True
  have len: "length fence = 3" "length (str ''action'') = 6" "length (str ''json'') = 4"
    by (simp_all add: fence_eq str_action str_json)
  show ?thesis
  proof (cases "prefix (str ''action'') (drop 3 s)")
    case a: True
    with True not_both_tags [OF a] show ?thesis
      by (simp add: lit_def tag_def alt_def after_tag_def prefix_append_drop len
          split: option.splits)
  next
    case False
    with True show ?thesis
      by (simp add: lit_def tag_def alt_def after_tag_def prefix_append_drop len)
  qed
qed

text \<open>
  Backtracking into \<^verbatim>\<open>\s*\<close> never helps when the rest of the pattern cannot start
  with a space: only the position after all the spaces can match.
\<close>

lemma star_space_dropWhile:
  assumes k: "\<And>t. is_space (hd t) \<Longrightarrow> t \<noteq> [] \<Longrightarrow> k t = None"
  shows "star_space k s = k (dropWhile is_space s)"
proof (induction s)
  case Nil
  then show ?case by simp
next
  case (Cons c cs)
  show ?case
  proof (cases "is_space c")
    case True
    then have "k (c # cs) = None"
      using k [of "c # cs"] by simp
    with True Cons show ?thesis
      by (simp split: option.splits)
  next
    case False
    then show ?thesis by simp
  qed
qed

lemma star_space_fence:
  "star_space (lit fence (\<lambda>_. Some x)) s =
     (if prefix fence (dropWhile is_space s) then Some x else None)"
proof -
  have "lit fence (\<lambda>_. Some x) t = None" if "is_space (hd t)" "t \<noteq> []" for t
    using that by (cases t) (auto simp: lit_def fence_eq)
  then have "star_space (lit fence (\<lambda>_. Some x)) s = lit fence (\<lambda>_. Some x) (dropWhile is_space s)"
    by (rule star_space_dropWhile)
  then show ?thesis by (simp add: lit_def)
qed

lemma closes_Nil: "closes [] = None"
  by (simp add: closes_def lit_def str_rbrace)

lemma closes_Cons:
  "closes (c # cs) = (if c = 125 \<and> prefix fence (dropWhile is_space cs) then Some cs else None)"
  by (auto simp: closes_def lit_def str_rbrace star_space_fence)

lemma action_group_Nil: "action_group [] = None"
  by (simp add: action_group_def lit_def str_lbrace)

lemma action_group_Cons:
  "action_group (c # cs) =
     (if c = 123
      then map_option (\<lambda>s2. take (Suc (length cs) - length s2) (c # cs)) (lazy_any closes cs)
      else None)"
  by (simp add: action_group_def lit_def str_lbrace)

lemma match_action_after_tag:
  "match_action s =
     (case after_tag s of Some t \<Rightarrow> action_group (dropWhile is_space t) | None \<Rightarrow> None)"
proof -
  have "action_group t = None" if "is_space (hd t)" "t \<noteq> []" for t
    using that by (cases t) (auto simp: action_group_Cons)
  then have "star_space action_group t = action_group (dropWhile is_space t)" for t
    by (rule star_space_dropWhile)
  then show ?thesis
    by (simp add: match_action_def tag_after_tag split: option.splits)
qed

lemma action_group_opens: "action_group t = Some g \<Longrightarrow> prefix (str ''{'') t"
  by (cases t) (auto simp: action_group_Nil action_group_Cons str_lbrace split: if_splits)

lemma match_action_opens: "match_action s = Some g \<Longrightarrow> opens_block s"
  by (auto simp: match_action_after_tag opens_block_def split: option.splits
      dest: action_group_opens)

lemma search_action_hit: "match_action s = Some g \<Longrightarrow> search_action s = Some g"
  by (cases s) auto

lemma search_action_skip: "opens_nowhere pre s \<Longrightarrow> search_action (pre @ s) = search_action s"
proof (induction pre)
  case Nil
  then show ?case by simp
next
  case (Cons c cs)
  then have "match_action (c # cs @ s) = None"
    using match_action_opens [of "c # cs @ s"] by (cases "match_action (c # cs @ s)") auto
  with Cons show ?case by simp
qed

lemma search_action_none: "opens_nowhere r [] \<Longrightarrow> search_action r = None"
  using search_action_skip [of r "[]"]
  by (simp add: match_action_after_tag after_tag_def fence_eq)

subsection \<open>The group of a block whose content is an object\<close>

lemma prefix_fence_brace: "prefix fence (ys @ 125 # rest) \<Longrightarrow> prefix fence ys"
  by (cases ys; cases "tl ys"; cases "tl (tl ys)") (auto simp: fence_eq)

lemma no_fence_after_spaces:
  "\<not> sublist fence bs \<Longrightarrow> \<not> prefix fence (dropWhile is_space (bs @ 125 # rest))"
proof (induction bs)
  case Nil
  then show ?case by (simp add: fence_eq)
next
  case (Cons x xs)
  then have nx: "\<not> prefix fence (x # xs)" and nxs: "\<not> sublist fence xs"
    by (auto simp: sublist_Cons_right)
  show ?case
  proof (cases "is_space x")
    case True
    with Cons.IH nxs show ?thesis by simp
  next
    case False
    with nx prefix_fence_brace [of "x # xs" rest] show ?thesis by auto
  qed
qed

lemma lazy_any_body:
  "\<not> sublist fence body \<Longrightarrow> \<forall>c\<in>set ws2. is_space c \<Longrightarrow>
   lazy_any closes (body @ 125 # ws2 @ fence @ post) = Some (ws2 @ fence @ post)"
proof (induction body)
  case Nil
  have "dropWhile is_space (ws2 @ fence @ post) = fence @ post"
    using Nil.prems(2) by (induction ws2) (auto simp: fence_eq)
  then show ?case by (simp add: closes_Cons)
next
  case (Cons b bs)
  then have nbs: "\<not> sublist fence bs"
    by (auto simp: sublist_Cons_right)
  have "closes (b # bs @ 125 # ws2 @ fence @ post) = None"
    using no_fence_after_spaces [OF nbs] by (simp add: closes_Cons)
  with Cons.IH [OF nbs Cons.prems(2)] show ?case by simp
qed

lemma match_action_block:
  assumes "t = str ''action'' \<or> t = str ''json''" "\<forall>c\<in>set ws1. is_space c"
    "\<not> sublist fence body" "\<forall>c\<in>set ws2. is_space c"
  shows "match_action (fence @ t @ ws1 @ 123 # body @ 125 # ws2 @ fence @ post) =
    Some (123 # body @ [125])"
proof -
  let ?s = "123 # body @ 125 # ws2 @ fence @ post"
  have "after_tag (fence @ t @ ws1 @ ?s) = Some (ws1 @ ?s)"
    using assms(1) by (auto simp: after_tag_def fence_eq str_action str_json)
  moreover have "dropWhile is_space (ws1 @ ?s) = ?s"
    using assms(2) by (induction ws1) auto
  moreover have "action_group ?s = Some (123 # body @ [125])"
    using lazy_any_body [OF assms(3,4), of post] by (simp add: action_group_Cons)
  ultimately show ?thesis
    by (simp add: match_action_after_tag)
qed

lemma search_action_first:
  assumes r: "r = pre @ fence @ t @ ws1 @ str ''{'' @ body @ str ''}'' @ ws2 @ fence @ post"
    and t: "t = str ''action'' \<or> t = str ''json''"
    and ws: "\<forall>c\<in>set ws1. is_space c" "\<forall>c\<in>set ws2. is_space c"
    and body: "\<not> sublist fence body"
    and pre: "opens_nowhere pre (fence @ t @ ws1 @ str ''{'' @ body @ str ''}'' @ ws2 @ fence @ post)"
  shows "search_action r = Some (str ''{'' @ body @ str ''}'')"
proof -
  let ?s = "fence @ t @ ws1 @ 123 # body @ 125 # ws2 @ fence @ post"
  have "search_action (pre @ ?s) = search_action ?s"
    by (rule search_action_skip) (use pre in \<open>simp add: str_lbrace str_rbrace\<close>)
  also have "\<dots> = Some (123 # body @ [125])"
    using match_action_block [OF t ws(1) body ws(2), of post] by (rule search_action_hit)
  finally show ?thesis
    by (simp add: r str_lbrace str_rbrace)
qed

subsection \<open>Group 1 is an opening brace, some text and a closing brace\<close>

lemma lazy_any_closes_split:
  "lazy_any closes t = Some s2 \<Longrightarrow> \<exists>u. t = u @ 125 # s2"
proof (induction t)
  case Nil
  then show ?case by (simp add: closes_Nil)
next
  case (Cons c cs)
  show ?case
  proof (cases "closes (c # cs)")
    case None
    with Cons obtain u where "cs = u @ 125 # s2" by auto
    then have "c # cs = (c # u) @ 125 # s2" by simp
    then show ?thesis by blast
  next
    case (Some a)
    with Cons.prems have "c = 125" "s2 = cs"
      by (auto simp: closes_Cons split: if_splits)
    then have "c # cs = [] @ 125 # s2" by simp
    then show ?thesis by blast
  qed
qed

lemma action_group_shape:
  assumes "action_group s1 = Some g"
  shows "\<exists>u. g = 123 # u @ [125]"
proof (cases s1)
  case Nil
  with assms show ?thesis by (simp add: action_group_Nil)
next
  case (Cons c cs)
  with assms obtain s2 where c: "c = 123" and l: "lazy_any closes cs = Some s2"
    and g: "g = take (Suc (length cs) - length s2) (c # cs)"
    by (auto simp: action_group_Cons split: if_splits)
  from l obtain u where "cs = u @ 125 # s2"
    using lazy_any_closes_split by blast
  with c g have "g = 123 # u @ [125]" by simp
  then show ?thesis by blast
qed

lemma search_action_shape:
  "search_action r = Some g \<Longrightarrow> \<exists>u. g = 123 # u @ [125]"
proof (induction r)
  case Nil
  then show ?case
    by (simp add: match_action_after_tag after_tag_def fence_eq)
next
  case (Cons c cs)
  show ?case
  proof (cases "match_action (c # cs)")
    case None
    with Cons show ?thesis by simp
  next
    case (Some a)
    with Cons.prems have "match_action (c # cs) = Some g" by simp
    then show ?thesis
      by (auto simp: match_action_after_tag split: option.splits dest: action_group_shape)
  qed
qed

lemma strip_braces: "strip (123 # u @ [125]) = 123 # u @ [125]"
  by (simp add: strip_def)

lemma extract_action_search:
  "extract_action loads r = (case search_action r of Some g \<Rightarrow> loads g | None \<Rightarrow> None)"
proof (cases "search_action r")
  case None
  then show ?thesis by (simp add: extract_action_def)
next
  case (Some g)
  then obtain u where "g = 123 # u @ [125]"
    using search_action_shape by blast
  with Some show ?thesis by (simp add: extract_action_def strip_braces)
qed

section \<open>extract\_action: the first block that holds an object\<close>

text \<open>
  C1 (as amended). Tagged fences that are not followed by an opening brace are passed
  over. At the first tagged fence that is followed, after optional whitespace, by
  \<^verbatim>\<open>{\<close>, some content without a fence, \<^verbatim>\<open>}\<close>, optional whitespace and the closing fence,
  extract\_action returns what the decoder makes of the text from brace to brace: the
  decoded object, or nothing when the decoder fails; whatever follows the block plays no
  part. When no position of the response opens such a block the result is nothing. In
  every case the result is nothing or the decoding of the one text the search returned,
  never an error.
\<close>

theorem extract_action_first_object_block:
  fixes loads :: "pystr \<Rightarrow> 'j option"
  shows
    "(r = pre @ fence @ t @ ws1 @ str ''{'' @ body @ str ''}'' @ ws2 @ fence @ post \<and>
      (t = str ''action'' \<or> t = str ''json'') \<and>
      (\<forall>c\<in>set ws1. is_space c) \<and> (\<forall>c\<in>set ws2. is_space c) \<and>
      \<not> sublist fence body \<and>
      opens_nowhere pre (fence @ t @ ws1 @ str ''{'' @ body @ str ''}'' @ ws2 @ fence @ post)
      \<longrightarrow> extract_action loads r = loads (str ''{'' @ body @ str ''}'')) \<and>
     (opens_nowhere r [] \<longrightarrow> extract_action loads r = None) \<and>
     (extract_action loads r = None \<or>
      (\<exists>g. search_action r = Some g \<and> extract_action loads r = loads g))"
proof (intro conjI impI)
  assume "r = pre @ fence @ t @ ws1 @ str ''{'' @ body @ str ''}'' @ ws2 @ fence @ post \<and>
      (t = str ''action'' \<or> t = str ''json'') \<and>
      (\<forall>c\<in>set ws1. is_space c) \<and> (\<forall>c\<in>set ws2. is_space c) \<and>
      \<not> sublist fence body \<and>
      opens_nowhere pre (fence @ t @ ws1 @ str ''{'' @ body @ str ''}'' @ ws2 @ fence @ post)"
  then have "search_action r = Some (str ''{'' @ body @ str ''}'')"
    using search_action_first [of r pre t ws1 body ws2 post] by blast
  then show "extract_action loads r = loads (str ''{'' @ body @ str ''}'')"
    by (simp add: extract_action_search)
next
  assume "opens_nowhere r []"
  then have "search_action r = None"
    by (rule search_action_none)
  then show "extract_action loads r = None"
    by (simp add: extract_action_search)
next
  show "extract_action loads r = None \<or>
      (\<exists>g. search_action r = Some g \<and> extract_action loads r = loads g)"
    by (cases "search_action r") (simp_all add: extract_action_search)
qed

text \<open>
  The theorem at a response whose first tagged fence holds no object and whose second
  and third do: the second block's text is what reaches the decoder (here \<open>Some\<close>, the
  decoder that returns the text it is given).
\<close>

theorem extract_action_first_object_block_witness:
  \<open>extract_action Some
     (str ''```json foo ``` ok ```action {"a": 1} ``` then ```json {"b": 2} ```'') =
   Some (str ''{"a": 1}'')\<close>
proof -
  let ?r = \<open>str ''```json foo ``` ok ```action {"a": 1} ``` then ```json {"b": 2} ```''\<close>
  let ?pre = \<open>str ''```json foo ``` ok ''\<close>
  let ?body = \<open>str ''"a": 1''\<close>
  let ?post = \<open>str '' then ```json {"b": 2} ```''\<close>
  let ?s = "fence @ str ''action'' @ str '' '' @ str ''{'' @ ?body @ str ''}'' @
      str '' '' @ fence @ ?post"
  have r: "?r = ?pre @ ?s"
    by (simp add: str_def fence_def)
  have t: "str ''action'' = str ''action'' \<or> str ''action'' = str ''json''"
    by simp
  have sp: "\<forall>c\<in>set (str '' ''). is_space c"
    by (simp add: str_def is_space_def)
  have body: "\<not> sublist fence ?body"
    by (simp add: str_def fence_def sublist_Cons_right)
  have pre: "opens_nowhere ?pre ?s"
    by (simp add: str_def fence_def opens_block_def after_tag_def is_space_def)
  have "extract_action Some ?r = Some (str ''{'' @ ?body @ str ''}'')"
    by (rule extract_action_first_object_block
        [of ?r ?pre "str ''action''" "str '' ''" ?body "str '' ''" ?post Some,
          THEN conjunct1, THEN mp])
      (intro conjI r t sp body pre)
  then show ?thesis
    by (simp add: str_def)
qed

text \<open>
  C1 as stated fails: the first fenced block tagged \<^verbatim>\<open>json\<close> holds \<^verbatim>\<open>foo\<close>, which does not
  decode, and the result is not nothing: the search returns the second block's text,
  and the result is its decoding.
\<close>

theorem extract_action_first_block_counterexample:
  \<open>search_action (str ''```json foo ``` ```json {"a": 1} ```'') = Some (str ''{"a": 1}'') \<and>
   \<not> (\<forall>loads :: pystr \<Rightarrow> pystr option.
        loads (str ''foo'') = None \<longrightarrow>
        extract_action loads (str ''```json foo ``` ```json {"a": 1} ```'') = None)\<close>
proof
  let ?r = \<open>str ''```json foo ``` ```json {"a": 1} ```''\<close>
  let ?d = "\<lambda>s. if s = str ''foo'' then None else Some s"
  show found: "search_action ?r = Some (str ''{\"a\": 1}'')"
    by (simp add: str_def fence_def match_action_after_tag after_tag_def action_group_Nil
        action_group_Cons closes_Cons is_space_def)
  show "\<not> (\<forall>loads :: pystr \<Rightarrow> pystr option.
        loads (str ''foo'') = None \<longrightarrow> extract_action loads ?r = None)"
  proof
    assume "\<forall>loads :: pystr \<Rightarrow> pystr option.
        loads (str ''foo'') = None \<longrightarrow> extract_action loads ?r = None"
    then have "extract_action ?d ?r = None"
      by simp
    moreover have "extract_action ?d ?r = Some (str ''{\"a\": 1}'')"
      using found by (simp add: extract_action_search str_def)
    ultimately show False by simp
  qed
qed

section \<open>get\_clean\_response\<close>

lemma match_block_after_tag:
  "match_block s = (case after_tag s of Some t \<Rightarrow> lazy_any (lit fence Some) t | None \<Rightarrow> None)"
  by (simp add: match_block_def tag_after_tag)

lemma sub_blocks_Nil: "sub_blocks [] = []"
  by (subst sub_blocks.simps) (simp add: match_block_after_tag after_tag_def fence_eq)


lemma sub_blocks_drop:
  "match_block s = Some rest \<Longrightarrow> sub_blocks s = sub_blocks rest"
  by (subst sub_blocks.simps) simp

subsection \<open>Prose is kept\<close>






subsection \<open>Blocks are dropped\<close>

lemma prefix_fence_body:
  assumes "prefix fence (b @ fence @ rest)" "\<not> sublist fence b" "b = [] \<or> last b \<noteq> 96"
  shows "b = []"
proof (rule ccontr)
  assume ne: "b \<noteq> []"
  have "\<not> prefix fence b"
    using assms(2) by auto
  then have lt: "length b < 3"
    using prefix_length_prefix [OF assms(1), of b] by (fastforce simp: fence_eq)
  have "(b @ fence @ rest) ! (length b - 1) = fence ! (length b - 1)"
    using assms(1) lt ne by (intro prefix_nth) (auto simp: fence_eq)
  moreover have "(b @ fence @ rest) ! (length b - 1) = last b"
    using ne by (simp add: nth_append last_conv_nth)
  moreover have "fence ! (length b - 1) = 96"
    using lt by (auto simp: fence_eq nth_Cons')
  ultimately show False using assms(3) ne by simp
qed

lemma lazy_any_fence_body:
  "\<not> sublist fence b \<Longrightarrow> b = [] \<or> last b \<noteq> 96 \<Longrightarrow>
   lazy_any (lit fence Some) (b @ fence @ rest) = Some rest"
proof (induction b)
  case Nil
  then show ?case
    by (cases "fence @ rest") (auto simp: lit_def fence_eq)
next
  case (Cons x xs)
  have "\<not> prefix fence ((x # xs) @ fence @ rest)"
    using prefix_fence_body [OF _ Cons.prems] by blast
  then have "lit fence Some (x # xs @ fence @ rest) = None"
    by (simp add: lit_def)
  moreover have "\<not> sublist fence xs" "xs = [] \<or> last xs \<noteq> 96"
    using Cons.prems by (auto simp: sublist_Cons_right split: if_splits)
  ultimately show ?case
    using Cons.IH by simp
qed

lemma match_block_block:
  assumes "t = str ''action'' \<or> t = str ''json''" "\<not> sublist fence b" "b = [] \<or> last b \<noteq> 96"
  shows "match_block (fence @ t @ b @ fence @ rest) = Some rest"
proof -
  have "after_tag (fence @ t @ b @ fence @ rest) = Some (b @ fence @ rest)"
    using assms(1) by (auto simp: after_tag_def fence_eq str_action str_json)
  then show ?thesis
    using lazy_any_fence_body [OF assms(2,3), of rest] by (simp add: match_block_after_tag)
qed


lemma length_acknowledgment: "length acknowledgment = 42"
  by (simp add: acknowledgment_def str_def)

subsection \<open>The claims\<close>




text \<open>
  C3. When the prose left after dropping the blocks and trimming has fewer than 5
  characters (none included), get\_clean\_response returns the fixed acknowledgment; its
  result is never empty, and never shorter than 5 characters.
\<close>

theorem get_clean_response_fallback:
  "(length (strip (sub_blocks r)) < 5 \<longrightarrow> get_clean_response r = acknowledgment) \<and>
   get_clean_response r \<noteq> [] \<and> 5 \<le> length (get_clean_response r)"
proof -
  have "5 \<le> length (get_clean_response r)"
    by (simp add: get_clean_response_def Let_def length_acknowledgment)
  moreover from this have "get_clean_response r \<noteq> []"
    by auto
  ultimately show ?thesis
    by (auto simp: get_clean_response_def Let_def)
qed

text \<open>The theorem at a response that is nothing but a block.\<close>

theorem get_clean_response_fallback_witness:
  \<open>length (strip (sub_blocks (str ''```action {"type": "x"} ```''))) < 5 \<and>
   get_clean_response (str ''```action {"type": "x"} ```'') = acknowledgment\<close>
proof -
  let ?r = \<open>str ''```action {"type": "x"} ```''\<close>
  have "?r = fence @ str ''action'' @ str '' {\"type\": \"x\"} '' @ fence @ []"
    by (simp add: str_def fence_def)
  moreover have "match_block (fence @ str ''action'' @ str '' {\"type\": \"x\"} '' @ fence @ []) = Some []"
    by (rule match_block_block) (simp_all add: str_def fence_def sublist_Cons_right)
  ultimately have "sub_blocks ?r = []"
    using sub_blocks_drop [of ?r "[]"] by (simp add: sub_blocks_Nil)
  then have short: "length (strip (sub_blocks ?r)) < 5"
    by (simp add: strip_def)
  with get_clean_response_fallback [of ?r] show ?thesis
    by blast
qed

section \<open>The session store\<close>

lemma str_eq_iff [simp]: "str a = str b \<longleftrightarrow> a = b"
  by (simp add: str_def inj_map_eq_map inj_of_char)

lemma get_session_key_eq_iff [simp]: "get_session_key a = get_session_key b \<longleftrightarrow> a = b"
  by (simp add: get_session_key_def)

lemma get_session_found:
  "(case fst (get_session self phone) of None \<Rightarrow> Map.empty | Some s \<Rightarrow> s) = session_of self phone"
  by (simp add: get_session_def session_of_def Let_def split: option.splits)

lemma session_of_get_session [simp]:
  "session_of (snd (get_session self phone)) p = session_of self p"
  by (auto simp: get_session_def session_of_def Let_def split: option.splits)

lemma session_of_set_session:
  "session_of (set_session self phone data now) p =
     (if p = phone then data(str ''last_activity'' \<mapsto> JStr now) else session_of self p)"
  by (simp add: set_session_def session_of_def Let_def)

lemma update_session_eq:
  "update_session self phone updates now =
     set_session (snd (get_session self phone)) phone (session_of self phone ++ updates) now"
  using get_session_found [of self phone]
  by (simp add: update_session_def Let_def split_beta)

lemma session_of_update_session:
  "session_of (update_session self phone updates now) p =
     (if p = phone then (session_of self phone ++ updates)(str ''last_activity'' \<mapsto> JStr now)
      else session_of self p)"
  by (simp add: update_session_eq session_of_set_session)

subsection \<open>Appending to the transcript\<close>

lemma last20_snoc: "last20 (last20 xs @ [x]) = last20 (xs @ [x])"
proof -
  have "length xs - (length xs - 20 + 19) + (length xs - 20) = length xs - 19"
    by arith
  then show ?thesis
    by (simp add: last20_def)
qed

lemma length_last20: "length (last20 xs) \<le> 20"
  by (simp add: last20_def)

lemma last20_append: "20 \<le> length ys \<Longrightarrow> last20 (xs @ ys) = last20 ys"
  by (simp add: last20_def)

lemma add_to_conversation_list:
  assumes "transcript self phone = Some old"
  shows "add_to_conversation self phone role message timestamp now =
    (None,
     set_session (snd (get_session self phone)) phone
       ((session_of self phone)
          (str ''conversation'' \<mapsto> JList (last20 (old @ [conversation_entry role message timestamp]))))
       now)"
proof (cases "session_of self phone (str ''conversation'')")
  case None
  with assms have "old = []"
    by (simp add: transcript_def)
  with None show ?thesis
    using get_session_found [of self phone]
    by (simp add: add_to_conversation_def Let_def split_beta last20_def dom_def)
next
  case (Some v)
  with assms have "v = JList old"
    by (simp add: transcript_def split: jval.splits)
  with Some show ?thesis
    using get_session_found [of self phone]
    by (auto simp: add_to_conversation_def Let_def split_beta last20_def dom_def)
qed

lemma add_to_conversation_not_list:
  assumes "transcript self phone = None"
  shows "fst (add_to_conversation self phone role message timestamp now) = Some AttributeError"
proof -
  from assms obtain v where "session_of self phone (str ''conversation'') = Some v"
    and "\<forall>xs. v \<noteq> JList xs"
    by (auto simp: transcript_def split: option.splits jval.splits)
  then show ?thesis
    using get_session_found [of self phone]
    by (cases v) (auto simp: add_to_conversation_def Let_def split_beta dom_def)
qed

lemma transcript_add_to_conversation:
  assumes "transcript self phone = Some old"
  shows "transcript (snd (add_to_conversation self phone role message timestamp now)) phone =
    Some (last20 (old @ [conversation_entry role message timestamp]))"
  by (simp add: add_to_conversation_list [OF assms] transcript_def session_of_set_session)

lemma get_conversation_history_eq:
  "fst (get_conversation_history self phone) =
     (case session_of self phone (str ''conversation'') of Some v \<Rightarrow> v | None \<Rightarrow> JList [])"
  by (auto simp: get_conversation_history_def get_session_def session_of_def Let_def
      split: option.splits)

lemma get_conversation_history_transcript:
  "transcript self phone = Some c \<Longrightarrow> fst (get_conversation_history self phone) = JList c"
  by (auto simp: get_conversation_history_eq transcript_def split: option.splits jval.splits)

lemma add_all_transcript:
  "transcript self phone = Some old \<Longrightarrow>
   fst (add_all self phone es) = None \<and>
   transcript (snd (add_all self phone es)) phone =
     Some (if es = [] then old else last20 (old @ map entry_of es))"
proof (induction es arbitrary: self old)
  case Nil
  then show ?case by simp
next
  case (Cons e es)
  obtain role message timestamp now where e: "e = (role, message, timestamp, now)"
    by (cases e)
  let ?x = "conversation_entry role message timestamp"
  obtain self' where step: "add_to_conversation self phone role message timestamp now = (None, self')"
    using add_to_conversation_list [OF Cons.prems] by simp
  have t: "transcript self' phone = Some (last20 (old @ [?x]))"
    using transcript_add_to_conversation [OF Cons.prems, of role message timestamp now]
    by (simp add: step)
  have all: "add_all self phone (e # es) = add_all self' phone es"
    by (simp add: e step)
  have "last20 (last20 (old @ [?x]) @ map entry_of es) = last20 ((old @ [?x]) @ map entry_of es)"
    if "es \<noteq> []"
    using that
  proof (induction es rule: rev_induct)
    case Nil
    then show ?case by simp
  next
    case (snoc y ys)
    show ?case
    proof (cases "ys = []")
      case True
      then show ?thesis by (simp add: last20_snoc)
    next
      case False
      with snoc.IH have
        "last20 (last20 (old @ [?x]) @ map entry_of ys) = last20 ((old @ [?x]) @ map entry_of ys)"
        by simp
      then have "last20 (last20 (last20 (old @ [?x]) @ map entry_of ys) @ [entry_of y]) =
          last20 (last20 ((old @ [?x]) @ map entry_of ys) @ [entry_of y])"
        by simp
      then show ?thesis
        by (simp add: last20_snoc)
    qed
  qed
  with Cons.IH [OF t] all show ?case
    by (simp add: e entry_of_def)
qed

subsection \<open>The claims on the session store\<close>

text \<open>
  C4. From a session whose \<^verbatim>\<open>conversation\<close> is a list \<open>old\<close> (or is not there: \<open>old\<close> is
  empty), no append of a run raises, and after the run (of one append or more) the
  stored transcript, which get\_conversation\_history returns, is the last 20 of \<open>old\<close>
  followed by the run's entries, oldest first: never more than 20 entries, and exactly
  the run's 20 most recent ones once the run has 20 or more.
\<close>

theorem add_to_conversation_cap:
  assumes "transcript self phone = Some old"
  shows "fst (add_all self phone es) = None \<and>
    (es \<noteq> [] \<longrightarrow>
       transcript (snd (add_all self phone es)) phone = Some (last20 (old @ map entry_of es)) \<and>
       fst (get_conversation_history (snd (add_all self phone es)) phone) =
         JList (last20 (old @ map entry_of es)) \<and>
       length (last20 (old @ map entry_of es)) \<le> 20) \<and>
    (20 \<le> length es \<longrightarrow>
       transcript (snd (add_all self phone es)) phone =
         Some (map entry_of (drop (length es - 20) es)))"
proof -
  note t = add_all_transcript [OF assms, of es]
  have "last20 (old @ map entry_of es) = map entry_of (drop (length es - 20) es)"
    if "20 \<le> length es"
    using that by (simp add: last20_append) (simp add: last20_def drop_map)
  moreover have "es \<noteq> []" if "20 \<le> length es"
    using that by auto
  moreover have "fst (get_conversation_history (snd (add_all self phone es)) phone) =
      JList (last20 (old @ map entry_of es))" if "es \<noteq> []"
    using t that by (intro get_conversation_history_transcript) simp
  ultimately show ?thesis
    using t by (auto simp: length_last20)
qed

text \<open>The theorem at 25 appends to a store with no session: the last 20 are kept.\<close>

theorem add_to_conversation_cap_witness:
  "transcript
     (snd (add_all \<lparr>session_timeout = 3600, redis = Map.empty\<rparr> (str ''923001234567'')
        (map (\<lambda>n. (str ''user'', [n], str ''2024-01-01T10:00:00'', str ''2024-01-01T10:00:01''))
           [0..<25])))
     (str ''923001234567'') =
   Some (map (\<lambda>n. conversation_entry (str ''user'') [n] (str ''2024-01-01T10:00:00'')) [5..<25])"
proof -
  let ?self = "\<lparr>session_timeout = 3600, redis = Map.empty\<rparr>"
  let ?f = "\<lambda>n. (str ''user'', [n], str ''2024-01-01T10:00:00'', str ''2024-01-01T10:00:01'')"
  let ?es = "map ?f [0..<25]"
  have t: "transcript ?self (str ''923001234567'') = Some []"
    by (simp add: transcript_def session_of_def)
  have len: "20 \<le> length ?es"
    by simp
  have "transcript (snd (add_all ?self (str ''923001234567'') ?es)) (str ''923001234567'') =
      Some (map entry_of (drop (length ?es - 20) ?es))"
    using add_to_conversation_cap [OF t, of ?es] len by blast
  moreover have "map entry_of (drop (length ?es - 20) ?es) =
      map (\<lambda>n. conversation_entry (str ''user'') [n] (str ''2024-01-01T10:00:00'')) [5..<25]"
    by (simp add: drop_map entry_of_def comp_def)
  ultimately show ?thesis
    by simp
qed

text \<open>
  C7. update\_session reads the stored session (the empty dict when there is none),
  puts the keys of the updates over it and writes the result through set\_session: at
  every key the stored session then holds the update's value when the update has the
  key and the prior value otherwise, but for \<^verbatim>\<open>last_activity\<close>, which the write stamps.
  A value is replaced as a whole, whatever it holds.
\<close>

theorem update_session_merge:
  "update_session self phone updates now =
     set_session (snd (get_session self phone)) phone (session_of self phone ++ updates) now \<and>
   session_of (update_session self phone updates now) phone k =
     (if k = str ''last_activity'' then Some (JStr now)
      else case updates k of Some v \<Rightarrow> Some v | None \<Rightarrow> session_of self phone k)"
  by (simp add: update_session_eq session_of_set_session map_add_def)

text \<open>
  The theorem at the updates of the specification: \<^verbatim>\<open>{a:1}\<close> then \<^verbatim>\<open>{b:2}\<close>, \<^verbatim>\<open>{a:1}\<close> then
  \<^verbatim>\<open>{a:3}\<close>, and a nested value, which is replaced and not merged.
\<close>

theorem update_session_merge_witness:
  "session_of
     (update_session
        (update_session \<lparr>session_timeout = 3600, redis = Map.empty\<rparr> (str ''923001234567'')
           [str ''a'' \<mapsto> JInt 1] (str ''t1''))
        (str ''923001234567'') [str ''b'' \<mapsto> JInt 2] (str ''t2''))
     (str ''923001234567'') (str ''a'') = Some (JInt 1) \<and>
   session_of
     (update_session
        (update_session \<lparr>session_timeout = 3600, redis = Map.empty\<rparr> (str ''923001234567'')
           [str ''a'' \<mapsto> JInt 1] (str ''t1''))
        (str ''923001234567'') [str ''b'' \<mapsto> JInt 2] (str ''t2''))
     (str ''923001234567'') (str ''b'') = Some (JInt 2) \<and>
   session_of
     (update_session
        (update_session \<lparr>session_timeout = 3600, redis = Map.empty\<rparr> (str ''923001234567'')
           [str ''a'' \<mapsto> JInt 1] (str ''t1''))
        (str ''923001234567'') [str ''a'' \<mapsto> JInt 3] (str ''t2''))
     (str ''923001234567'') (str ''a'') = Some (JInt 3) \<and>
   session_of
     (update_session
        (update_session \<lparr>session_timeout = 3600, redis = Map.empty\<rparr> (str ''923001234567'')
           [str ''a'' \<mapsto> JDict [(str ''x'', JInt 1), (str ''y'', JInt 2)]] (str ''t1''))
        (str ''923001234567'') [str ''a'' \<mapsto> JDict [(str ''x'', JInt 5)]] (str ''t2''))
     (str ''923001234567'') (str ''a'') = Some (JDict [(str ''x'', JInt 5)])"
  by (simp add: update_session_merge [THEN conjunct2])

text \<open>
  C10. Every session write stamps \<^verbatim>\<open>last_activity\<close> with the time of the write, whatever
  the caller put under that key: set\_session stores its argument with that key set;
  update\_session stores the merge of the prior session and the updates with that key
  set; and an append that does not raise stores a session with that key set.
\<close>

theorem set_session_last_activity:
  "session_of (set_session self phone session_data now) phone =
     session_data(str ''last_activity'' \<mapsto> JStr now) \<and>
   session_of (update_session self phone updates now) phone =
     (session_of self phone ++ updates)(str ''last_activity'' \<mapsto> JStr now) \<and>
   (fst (add_to_conversation self phone role message timestamp now) = None \<longrightarrow>
      session_of (snd (add_to_conversation self phone role message timestamp now)) phone
        (str ''last_activity'') = Some (JStr now))"
proof (intro conjI impI)
  show "session_of (set_session self phone session_data now) phone =
      session_data(str ''last_activity'' \<mapsto> JStr now)"
    by (simp add: session_of_set_session)
  show "session_of (update_session self phone updates now) phone =
      (session_of self phone ++ updates)(str ''last_activity'' \<mapsto> JStr now)"
    by (simp add: session_of_update_session)
  assume ok: "fst (add_to_conversation self phone role message timestamp now) = None"
  then obtain old where "transcript self phone = Some old"
    using add_to_conversation_not_list [of self phone role message timestamp now]
    by (cases "transcript self phone") auto
  then show "session_of (snd (add_to_conversation self phone role message timestamp now)) phone
      (str ''last_activity'') = Some (JStr now)"
    by (simp add: add_to_conversation_list session_of_set_session)
qed

text \<open>
  The theorem at writes whose caller supplies \<^verbatim>\<open>last_activity\<close> itself: the stored value
  is the time of the write.
\<close>

theorem set_session_last_activity_witness:
  "session_of
     (set_session \<lparr>session_timeout = 3600, redis = Map.empty\<rparr> (str ''923001234567'')
        [str ''last_activity'' \<mapsto> JStr (str ''never'')] (str ''2024-01-01T10:00:01''))
     (str ''923001234567'') (str ''last_activity'') = Some (JStr (str ''2024-01-01T10:00:01'')) \<and>
   session_of
     (update_session \<lparr>session_timeout = 3600, redis = Map.empty\<rparr> (str ''923001234567'')
        [str ''last_activity'' \<mapsto> JStr (str ''never'')] (str ''2024-01-01T10:00:01''))
     (str ''923001234567'') (str ''last_activity'') = Some (JStr (str ''2024-01-01T10:00:01'')) \<and>
   session_of
     (snd (add_to_conversation \<lparr>session_timeout = 3600, redis = Map.empty\<rparr>
        (str ''923001234567'') (str ''user'') (str ''hello'') (str ''2024-01-01T10:00:00'')
        (str ''2024-01-01T10:00:01'')))
     (str ''923001234567'') (str ''last_activity'') = Some (JStr (str ''2024-01-01T10:00:01''))"
proof -
  let ?self = "\<lparr>session_timeout = 3600, redis = Map.empty\<rparr>"
  let ?p = "str ''923001234567''"
  have "transcript ?self ?p = Some []"
    by (simp add: transcript_def session_of_def)
  then have ok: "fst (add_to_conversation ?self ?p (str ''user'') (str ''hello'')
      (str ''2024-01-01T10:00:00'') (str ''2024-01-01T10:00:01'')) = None"
    by (simp add: add_to_conversation_list)
  note th = set_session_last_activity [of ?self ?p _ "str ''2024-01-01T10:00:01''" _
      "str ''user''" "str ''hello''" "str ''2024-01-01T10:00:00''"]
  from th [THEN conjunct1] th [THEN conjunct2, THEN conjunct1]
    th [THEN conjunct2, THEN conjunct2, THEN mp, OF ok]
  show ?thesis
    by simp
qed

section \<open>Orders\<close>

text \<open>
  C6. should\_request\_feedback is true exactly when feedback has not been requested, no
  feedback text is stored (the column is null or holds the empty string), the order has
  a completion time, and the time since then is at least the configured delay.
\<close>

theorem should_request_feedback_iff:
  "should_request_feedback cfg utcnow order \<longleftrightarrow>
     \<not> feedback_requested order \<and>
     (feedback order = None \<or> feedback order = Some []) \<and>
     (\<exists>completed. completed_at order = Some completed \<and>
        utcnow - completed \<ge> timedelta_minutes (FEEDBACK_DELAY_MINUTES cfg))"
  by (auto simp: should_request_feedback_def Let_def split: option.splits)

text \<open>
  The theorem at an order completed 31 minutes before the call, under the default delay
  of 30 minutes: it is due for a feedback request, and the same order with
  \<^verbatim>\<open>feedback_requested\<close> set is not; nor is an order completed 29 minutes before.
\<close>

theorem should_request_feedback_iff_witness:
  "should_request_feedback default_settings (1700000000000000 + timedelta_minutes 31)
     \<lparr>order_id = 7, customer_id = 3, order_type = TAKEAWAY, status = COMPLETED,
      items = JList [], total_price = JInt 850, delivery_address = JNull,
      delivery_latitude = JNull, delivery_longitude = JNull,
      estimated_completion_time = None, completed_at = Some 1700000000000000,
      feedback_requested = False, feedback = None,
      created_at = 1699999000000000, updated_at = 1700000000000000\<rparr> \<and>
   \<not> should_request_feedback default_settings (1700000000000000 + timedelta_minutes 31)
     \<lparr>order_id = 7, customer_id = 3, order_type = TAKEAWAY, status = COMPLETED,
      items = JList [], total_price = JInt 850, delivery_address = JNull,
      delivery_latitude = JNull, delivery_longitude = JNull,
      estimated_completion_time = None, completed_at = Some 1700000000000000,
      feedback_requested = True, feedback = None,
      created_at = 1699999000000000, updated_at = 1700000000000000\<rparr> \<and>
   \<not> should_request_feedback default_settings (1700000000000000 + timedelta_minutes 29)
     \<lparr>order_id = 7, customer_id = 3, order_type = TAKEAWAY, status = COMPLETED,
      items = JList [], total_price = JInt 850, delivery_address = JNull,
      delivery_latitude = JNull, delivery_longitude = JNull,
      estimated_completion_time = None, completed_at = Some 1700000000000000,
      feedback_requested = False, feedback = None,
      created_at = 1699999000000000, updated_at = 1700000000000000\<rparr>"
  by (simp add: should_request_feedback_iff default_settings_def timedelta_minutes_def)

section \<open>Dispatching create\_order\<close>








section \<open>Usage accounting\<close>

lemma hash_at_put [simp]:
  "hash_at (put self key field v) k f =
     (if k = key \<and> f = field then Some v else hash_at self k f)"
  by (simp add: put_def hash_at_def)

lemma counter_put [simp]:
  "counter (put self key field v) k f =
     (if k = key \<and> f = field then v else counter self k f)"
  by (simp add: counter_def)

lemma put_fields [simp]:
  "expires (put self key field v) = expires self"
  "connected (put self key field v) = connected self"
  "INPUT_COST_PER_1M (put self key field v) = INPUT_COST_PER_1M self"
  "OUTPUT_COST_PER_1M (put self key field v) = OUTPUT_COST_PER_1M self"
  "USD_TO_PKR (put self key field v) = USD_TO_PKR self"
  by (simp_all add: put_def)

lemma dom_hashes_put [simp]: "dom (hashes (put self key field v)) = insert key (dom (hashes self))"
  by (simp add: put_def)




lemma run_op_Expire_present:
  "key \<in> dom (hashes self) \<Longrightarrow>
   run_op (Expire key seconds) self = Some (self\<lparr>expires := (expires self)(key \<mapsto> seconds)\<rparr>)"
  by simp

lemma hash_at_expires [simp]: "hash_at (self\<lparr>expires := e\<rparr>) = hash_at self"
  by (rule ext) (simp add: hash_at_def)

lemma counter_expires [simp]: "counter (self\<lparr>expires := e\<rparr>) = counter self"
  by (rule ext, rule ext) (simp add: counter_def)



declare run_op.simps(1,2) [simp del]






end
